theory Spec2Isabelle
  imports Main "HOL-Library.Word"
begin

unbundle bit_operations_syntax

section \<open>The cma arena allocator (include/cma/cmalib.h)\<close>

text \<open>
  A shallow embedding of \<^verbatim>\<open>cma::block\<close> and \<^verbatim>\<open>cma::arena\<close> on an LP64 platform.

  \<^item> \<^verbatim>\<open>std::size_t\<close> and \<^verbatim>\<open>std::uintptr_t\<close> are 64-bit words: \<open>+\<close>, \<open>-\<close> and \<open>*\<close> wrap.
  \<^item> A \<^verbatim>\<open>std::byte*\<close> or \<^verbatim>\<open>void*\<close> is the 64-bit address it holds; \<^verbatim>\<open>nullptr\<close> is 0.
    Pointer arithmetic is word arithmetic, and the cast of a pointer difference to
    \<^verbatim>\<open>std::size_t\<close> is word subtraction: the difference of the two addresses modulo
    \<open>2 ^ 64\<close>, as an LP64 compiler computes it.
  \<^item> A \<^verbatim>\<open>block*\<close> is \<open>None\<close> (\<^verbatim>\<open>nullptr\<close>) or \<open>Some r\<close>, where \<open>r\<close> names a block object.
    The live block objects are a store from names to block values, so that the aliasing
    between \<^verbatim>\<open>_head\<close>, \<^verbatim>\<open>_active\<close>, the \<^verbatim>\<open>next\<close> links and markers is explicit.
  \<^item> \<^verbatim>\<open>new block(n)\<close> asks the system for storage. What the system answers is an
    argument of the model: \<open>None\<close> when it throws \<^verbatim>\<open>std::bad_alloc\<close>, \<open>Some (r, d)\<close> when the
    block object is placed at \<open>r\<close> and \<^verbatim>\<open>::operator new(n)\<close> returns the address \<open>d\<close>.
  \<^item> A function returns \<open>None\<close> where the C++ dereferences a null or dangling
    \<^verbatim>\<open>block*\<close>, or where a loop over the chain does not return.
  \<^item> A thrown exception is the \<open>Inl\<close> of a sum, returned with the state at the throw.
\<close>

type_synonym size_t = "64 word"
type_synonym byte_ptr = "64 word"
type_synonym block_ref = nat
type_synonym block_ptr = "block_ref option"

text \<open>\<^verbatim>\<open>alignof(std::max_align_t)\<close>, 16 on x86-64 and AArch64.\<close>

definition max_align :: size_t where
  "max_align = 16"

subsection \<open>namespace impl\<close>

text \<open>\<^verbatim>\<open>std::has_single_bit(x)\<close>: \<open>x\<close> is an integral power of two.\<close>

definition is_pow_2 :: "size_t \<Rightarrow> bool" where
  "is_pow_2 x = (\<exists>n \<in> {0..<64}. x = 2 ^ n)"

definition align_up :: "byte_ptr \<Rightarrow> size_t \<Rightarrow> byte_ptr" where
  "align_up p alignment = (p + (alignment - 1)) AND NOT (alignment - 1)"

text \<open>The pair is (returned flag, value stored through \<^verbatim>\<open>res\<close>).\<close>

definition overflow_addition :: "size_t \<Rightarrow> size_t \<Rightarrow> bool \<times> size_t" where
  "overflow_addition a b = (a + b < a, a + b)"

subsection \<open>struct block\<close>

text \<open>The fields \<^verbatim>\<open>end\<close> and \<^verbatim>\<open>next\<close> are \<open>end_ptr\<close> and \<open>nxt\<close> here.\<close>

record block =
  data :: byte_ptr
  cur :: byte_ptr
  end_ptr :: byte_ptr
  nxt :: block_ptr
  capacity :: size_t

text \<open>The constructor \<^verbatim>\<open>block(bytes)\<close>, given the address \<open>d\<close> that \<^verbatim>\<open>::operator new(bytes)\<close> returned.\<close>

definition block_ctor :: "byte_ptr \<Rightarrow> size_t \<Rightarrow> block" where
  "block_ctor d bytes =
     \<lparr>data = d, cur = d, end_ptr = d + bytes, nxt = None, capacity = bytes\<rparr>"

datatype error = bad_alloc

text \<open>\<^verbatim>\<open>new block(bytes)\<close> on the store \<open>bs\<close>, with the system's answer \<open>g\<close>.\<close>

definition new_block ::
  "(block_ref \<times> byte_ptr) option \<Rightarrow> (block_ref \<rightharpoonup> block) \<Rightarrow> size_t
    \<Rightarrow> error + (block_ref \<times> (block_ref \<rightharpoonup> block))" where
  "new_block g bs bytes =
     (case g of
        None \<Rightarrow> Inl bad_alloc
      | Some (r, d) \<Rightarrow> Inr (r, bs(r \<mapsto> block_ctor d bytes)))"

subsection \<open>class arena\<close>

text \<open>\<^verbatim>\<open>arena::marker\<close>; its field \<^verbatim>\<open>cur\<close> is \<open>mcur\<close> here.\<close>

record marker =
  mem :: block_ptr
  mcur :: byte_ptr

text \<open>
  The members \<^verbatim>\<open>_block_size\<close>, \<^verbatim>\<open>_head\<close> and \<^verbatim>\<open>_active\<close>, together with the store of the
  block objects created for this arena and not yet deleted.
\<close>

record arena =
  blocks :: "block_ref \<rightharpoonup> block"
  block_size :: size_t
  head :: block_ptr
  active :: block_ptr

text \<open>The constructor \<^verbatim>\<open>arena(initial_block_size)\<close>.\<close>

definition arena_ctor :: "(block_ref \<times> byte_ptr) option \<Rightarrow> size_t \<Rightarrow> error + arena" where
  "arena_ctor g initial_block_size =
     (let bsz = max initial_block_size 1024 in
      case new_block g Map.empty bsz of
        Inl e \<Rightarrow> Inl e
      | Inr (r, bs) \<Rightarrow>
          Inr \<lparr>blocks = bs, block_size = bsz, head = Some r, active = Some r\<rparr>)"

text \<open>Dereferencing \<^verbatim>\<open>_active\<close>.\<close>

definition active_block :: "arena \<Rightarrow> (block_ref \<times> block) option" where
  "active_block s =
     (case active s of
        None \<Rightarrow> None
      | Some a \<Rightarrow> (case blocks s a of None \<Rightarrow> None | Some b \<Rightarrow> Some (a, b)))"

text \<open>The returned pointer is 0 where the C++ returns \<^verbatim>\<open>nullptr\<close>.\<close>

definition try_alloc_at_active :: "arena \<Rightarrow> size_t \<Rightarrow> size_t \<Rightarrow> (byte_ptr \<times> arena) option" where
  "try_alloc_at_active s bytes alignment =
     (case active_block s of
        None \<Rightarrow> None
      | Some (a, b) \<Rightarrow>
          (let aligned = align_up (cur b) alignment in
           if end_ptr b - aligned < bytes then Some (0, s)
           else Some (aligned, s\<lparr>blocks := (blocks s)(a \<mapsto> b\<lparr>cur := aligned + bytes\<rparr>)\<rparr>)))"

text \<open>The alignment \<^verbatim>\<open>allocate_bytes\<close> works with after its correction step.\<close>

definition effective_alignment :: "size_t \<Rightarrow> size_t" where
  "effective_alignment alignment =
     (if alignment = 0 \<or> \<not> is_pow_2 alignment then max_align else alignment)"

text \<open>The resizing policy: \<^verbatim>\<open>std::max(std::max(_active->capacity * 2, need), _block_size)\<close>.\<close>

definition new_capacity :: "size_t \<Rightarrow> size_t \<Rightarrow> size_t \<Rightarrow> size_t" where
  "new_capacity active_cap need bsz = max (max (active_cap * 2) need) bsz"

text \<open>
  \<open>g\<close> is the system's answer to the one \<^verbatim>\<open>new block(new_cap)\<close> the call may execute. A
  throw returns the arena as it is at the throw.
\<close>

definition allocate_bytes ::
  "(block_ref \<times> byte_ptr) option \<Rightarrow> arena \<Rightarrow> size_t \<Rightarrow> size_t
    \<Rightarrow> ((error + byte_ptr) \<times> arena) option" where
  "allocate_bytes g s bytes alignment0 =
     (if bytes = 0 then Some (Inr 0, s)
      else
        (let alignment = effective_alignment alignment0 in
         (case try_alloc_at_active s bytes alignment of
            None \<Rightarrow> None
          | Some (p, s1) \<Rightarrow>
              (if p \<noteq> 0 then Some (Inr p, s1)
               else
                 (let (ovf, need) = overflow_addition bytes alignment in
                  if ovf then Some (Inl bad_alloc, s1)
                  else
                    (case active_block s1 of
                       None \<Rightarrow> None
                     | Some (a, ab) \<Rightarrow>
                         (case new_block g (blocks s1)
                                 (new_capacity (capacity ab) need (block_size s1)) of
                            Inl e \<Rightarrow> Some (Inl e, s1)
                          | Inr (r, bs) \<Rightarrow>
                              (case bs a of
                                 None \<Rightarrow> None
                               | Some ab' \<Rightarrow>
                                   (let s2 = s1\<lparr>blocks := bs(a \<mapsto> ab'\<lparr>nxt := Some r\<rparr>),
                                                 active := Some r\<rparr> in
                                    (case try_alloc_at_active s2 bytes alignment of
                                       None \<Rightarrow> None
                                     | Some (q, s3) \<Rightarrow>
                                         (if q \<noteq> 0 then Some (Inr q, s3)
                                          else Some (Inl bad_alloc, s3))))))))))))"

definition create_marker :: "arena \<Rightarrow> marker option" where
  "create_marker s =
     (case active s of
        None \<Rightarrow> Some \<lparr>mem = None, mcur = 0\<rparr>
      | Some a \<Rightarrow>
          (case blocks s a of
             None \<Rightarrow> None
           | Some b \<Rightarrow> Some \<lparr>mem = Some a, mcur = cur b\<rparr>))"

text \<open>The loop of \<^verbatim>\<open>rollback_to\<close>: \<^verbatim>\<open>for (auto* b = p; b; b = b->next) b->cur = b->data;\<close>\<close>

partial_function (option) reset_chain ::
  "(block_ref \<rightharpoonup> block) \<Rightarrow> block_ptr \<Rightarrow> (block_ref \<rightharpoonup> block) option" where
  "reset_chain bs p =
     (case p of
        None \<Rightarrow> Some bs
      | Some r \<Rightarrow>
          (case bs r of
             None \<Rightarrow> None
           | Some b \<Rightarrow> reset_chain (bs(r \<mapsto> b\<lparr>cur := data b\<rparr>)) (nxt b)))"

definition rollback_to :: "arena \<Rightarrow> marker \<Rightarrow> arena option" where
  "rollback_to s m =
     (case mem m of
        None \<Rightarrow> Some s
      | Some r \<Rightarrow>
          (case blocks s r of
             None \<Rightarrow> None
           | Some b \<Rightarrow>
               (case reset_chain ((blocks s)(r \<mapsto> b\<lparr>cur := mcur m\<rparr>)) (nxt b) of
                  None \<Rightarrow> None
                | Some bs \<Rightarrow> Some (s\<lparr>active := Some r, blocks := bs\<rparr>))))"

text \<open>
  \<^verbatim>\<open>make<T>(args...)\<close>. \<open>size_T\<close> and \<open>align_T\<close> are \<^verbatim>\<open>sizeof(T)\<close> and \<^verbatim>\<open>alignof(T)\<close>;
  \<open>ctor memory\<close> is what the placement-new expression does at \<open>memory\<close>: \<open>None\<close> when
  the object is constructed, \<open>Some e\<close> when the constructor throws \<open>e\<close>.
\<close>

datatype 'e make_error = alloc_failed error | ctor_threw 'e

definition make ::
  "(block_ref \<times> byte_ptr) option \<Rightarrow> arena \<Rightarrow> size_t \<Rightarrow> size_t \<Rightarrow> (byte_ptr \<Rightarrow> 'e option)
    \<Rightarrow> (('e make_error + byte_ptr) \<times> arena) option" where
  "make g s size_T align_T ctor =
     (case create_marker s of
        None \<Rightarrow> None
      | Some m \<Rightarrow>
          (case allocate_bytes g s size_T align_T of
             None \<Rightarrow> None
           | Some (Inl e, s1) \<Rightarrow> Some (Inl (alloc_failed e), s1)
           | Some (Inr memory, s1) \<Rightarrow>
               (case ctor memory of
                  None \<Rightarrow> Some (Inr memory, s1)
                | Some e \<Rightarrow>
                    (case rollback_to s1 m of
                       None \<Rightarrow> None
                     | Some s2 \<Rightarrow> Some (Inl (ctor_threw e), s2)))))"

text \<open>The loop of \<^verbatim>\<open>free_all\<close>, deleting each block it visits from the store.\<close>

partial_function (option) delete_chain ::
  "(block_ref \<rightharpoonup> block) \<Rightarrow> block_ptr \<Rightarrow> (block_ref \<rightharpoonup> block) option" where
  "delete_chain bs p =
     (case p of
        None \<Rightarrow> Some bs
      | Some r \<Rightarrow>
          (case bs r of
             None \<Rightarrow> None
           | Some b \<Rightarrow> delete_chain (bs(r := None)) (nxt b)))"

definition free_all :: "arena \<Rightarrow> arena option" where
  "free_all s =
     (case delete_chain (blocks s) (head s) of
        None \<Rightarrow> None
      | Some bs \<Rightarrow> Some (s\<lparr>blocks := bs, head := None, active := None\<rparr>))"

subsection \<open>The chain of blocks\<close>

text \<open>
  \<open>chain bs p rs\<close>: following \<^verbatim>\<open>next\<close> from the pointer \<open>p\<close> visits exactly the live
  blocks \<open>rs\<close>, in this order, and then reaches \<^verbatim>\<open>nullptr\<close>.
\<close>

fun chain :: "(block_ref \<rightharpoonup> block) \<Rightarrow> block_ptr \<Rightarrow> block_ref list \<Rightarrow> bool" where
  "chain bs p [] = (p = None)"
| "chain bs p (r # rs) =
     (p = Some r \<and> (case bs r of None \<Rightarrow> False | Some b \<Rightarrow> chain bs (nxt b) rs))"

subsection \<open>What the system may answer\<close>

text \<open>
  \<open>grant_ok bs n (r, d)\<close>: an answer of the system to \<^verbatim>\<open>new block(n)\<close> that a C++
  implementation can give while the blocks \<open>bs\<close> are live. The block object is a new one,
  \<^verbatim>\<open>::operator new\<close> does not return null, and the \<open>n\<close> bytes at \<open>d\<close> lie inside the address
  space, so that \<^verbatim>\<open>data + bytes\<close> does not wrap.
\<close>

definition grant_ok :: "(block_ref \<rightharpoonup> block) \<Rightarrow> size_t \<Rightarrow> block_ref \<times> byte_ptr \<Rightarrow> bool" where
  "grant_ok bs n g = (case g of (r, d) \<Rightarrow> bs r = None \<and> d \<noteq> 0 \<and> unat d + unat n < 2 ^ 64)"

subsection \<open>The arena's invariant\<close>

text \<open>
  \<open>arena_inv s rs\<close>: the chain from \<^verbatim>\<open>_head\<close> is \<open>rs\<close>, it ends in \<^verbatim>\<open>nullptr\<close>, and
  \<^verbatim>\<open>_active\<close> points to one of its blocks.
\<close>

definition arena_inv :: "arena \<Rightarrow> block_ref list \<Rightarrow> bool" where
  "arena_inv s rs =
     (chain (blocks s) (head s) rs
      \<and> (case active s of None \<Rightarrow> False | Some a \<Rightarrow> a \<in> set rs))"

section \<open>Zero-sized requests and null markers\<close>

text \<open>
  C9. For every alignment, \<^verbatim>\<open>allocate_bytes(0, alignment)\<close> returns \<^verbatim>\<open>nullptr\<close> and the
  arena is exactly the one before the call: no cursor, no link, not the active block and
  not the growth seed has changed. This holds in every state and whatever the system
  would have answered.
\<close>

theorem allocate_bytes_zero: "allocate_bytes g s 0 alignment = Some (Inr 0, s)"
  by (simp add: allocate_bytes_def)

text \<open>
  C10. \<^verbatim>\<open>rollback_to\<close> with a marker whose block pointer is null, such as a
  default-constructed marker, returns with the arena unchanged, whatever cursor the
  marker holds.
\<close>

theorem rollback_to_null_marker: "rollback_to s \<lparr>mem = None, mcur = c\<rparr> = Some s"
  by (simp add: rollback_to_def)

section \<open>Alignment and the bump step\<close>

subsection \<open>Rounding up to a power of two\<close>

lemma and_not_mask_push_drop: "(x::64 word) AND NOT (mask n) = push_bit n (drop_bit n x)"
  by (rule bit_eqI) (auto simp add: bit_simps)

lemma and_not_mask_minus: "(x::64 word) AND NOT (mask n) = x - take_bit n x"
proof -
  have "push_bit n (drop_bit n x) + take_bit n x = x" by (rule bits_ident)
  then show ?thesis by (simp add: and_not_mask_push_drop eq_diff_eq)
qed

lemma unat_and_not_mask: "unat ((x::64 word) AND NOT (mask n)) = unat x - unat x mod 2 ^ n"
proof -
  have le: "take_bit n x \<le> x"
    by (simp add: unsigned_take_bit_eq word_le_nat_alt)
  have "unat (x - take_bit n x) = unat x - unat (take_bit n x)"
    using le by (simp add: unat_sub)
  moreover have "unat (take_bit n x) = unat x mod 2 ^ n"
    by (metis take_bit_eq_mod unsigned_take_bit_eq)
  ultimately show ?thesis by (simp add: and_not_mask_minus)
qed

lemma unat_2p: "n < 64 \<Longrightarrow> unat (2 ^ n :: 64 word) = 2 ^ n"
proof -
  assume n: "n < 64"
  have lt: "(2::nat) ^ n < 2 ^ 64" by (rule power_strict_increasing) (use n in simp_all)
  have "unat (word_of_nat (2 ^ n) :: 64 word) = 2 ^ n mod 2 ^ LENGTH(64)"
    by (rule unat_of_nat)
  also have "\<dots> = 2 ^ n" using lt by simp
  finally show ?thesis by simp
qed

lemma is_pow_2_D:
  assumes "is_pow_2 a"
  obtains n where "n < 64" "a = 2 ^ n" "a - 1 = mask n" "unat a = 2 ^ n"
proof -
  from assms obtain n where n: "n < 64" "a = 2 ^ n" by (auto simp: is_pow_2_def)
  have "a - 1 = mask n" using n by (simp add: mask_eq_decr_exp)
  moreover have "unat a = 2 ^ n" using n by (simp add: unat_2p)
  ultimately show ?thesis using n that by blast
qed

lemma is_pow_2_max_align: "is_pow_2 max_align"
  unfolding is_pow_2_def max_align_def by (rule bexI[of _ 4]) simp_all

lemma is_pow_2_effective_alignment: "is_pow_2 (effective_alignment alignment)"
  by (simp add: effective_alignment_def is_pow_2_max_align)

lemma unat_align_up:
  assumes "is_pow_2 a"
  shows "unat (align_up p a) = unat (p + (a - 1)) - unat (p + (a - 1)) mod unat a"
proof -
  from assms obtain n where n: "a - 1 = mask n" "unat a = 2 ^ n" by (rule is_pow_2_D)
  show ?thesis by (simp add: align_up_def n unat_and_not_mask)
qed

lemma align_up_dvd:
  assumes "is_pow_2 a"
  shows "unat (align_up p a) mod unat a = 0"
  by (simp add: unat_align_up [OF assms] minus_mod_eq_mult_div)

lemma align_up_bounds:
  assumes "is_pow_2 a" and "unat p + unat a \<le> 2 ^ 64"
  shows "unat p \<le> unat (align_up p a)" and "unat (align_up p a) < unat p + unat a"
proof -
  from assms(1) obtain n where n: "n < 64" "a = 2 ^ n" "unat a = 2 ^ n" by (rule is_pow_2_D)
  have pos: "0 < unat a" using n by simp
  then have "a \<noteq> 0" by auto
  then have a1: "unat (a - 1) = unat a - 1" by (rule unat_minus_one)
  have "unat p + unat (a - 1) < 2 ^ LENGTH(64)"
    using assms(2) pos a1 by simp
  then have "unat (p + (a - 1)) = unat p + unat (a - 1)"
    by (simp only: unat_add_lem)
  then have x: "unat (p + (a - 1)) = unat p + unat a - 1"
    using a1 pos by simp
  have m: "(unat p + unat a - 1) mod unat a < unat a"
    using pos by simp
  have u: "unat (align_up p a) = (unat p + unat a - 1) - (unat p + unat a - 1) mod unat a"
    by (simp only: unat_align_up [OF assms(1)] x)
  show "unat p \<le> unat (align_up p a)"
    using m pos unfolding u by linarith
  show "unat (align_up p a) < unat p + unat a"
    using pos unfolding u by linarith
qed


subsection \<open>The bump step\<close>

lemma try_alloc_at_active_cases:
  assumes "try_alloc_at_active s bytes al = Some (p, s')"
  obtains a b where "active_block s = Some (a, b)"
    and "end_ptr b - align_up (cur b) al < bytes \<and> p = 0 \<and> s' = s
       \<or> \<not> end_ptr b - align_up (cur b) al < bytes \<and> p = align_up (cur b) al
          \<and> s' = s\<lparr>blocks := (blocks s)(a \<mapsto> b\<lparr>cur := align_up (cur b) al + bytes\<rparr>)\<rparr>"
  using assms
  by (auto simp: try_alloc_at_active_def Let_def split: option.splits if_splits)

lemma try_alloc_at_active_aligned:
  assumes "try_alloc_at_active s bytes al = Some (p, s')" and "is_pow_2 al"
  shows "unat p mod unat al = 0"
  using assms(1)
  by (rule try_alloc_at_active_cases) (auto simp: align_up_dvd [OF assms(2)])

lemma effective_alignment_default:
  "alignment = 0 \<or> \<not> is_pow_2 alignment \<Longrightarrow> effective_alignment alignment = max_align"
  by (simp add: effective_alignment_def)

lemma effective_alignment_idem:
  "effective_alignment (effective_alignment alignment) = effective_alignment alignment"
  using is_pow_2_effective_alignment [of alignment]
  by (auto simp: effective_alignment_def max_align_def)

lemma allocate_bytes_effective:
  "allocate_bytes g s bytes (effective_alignment alignment) = allocate_bytes g s bytes alignment"
  by (simp add: allocate_bytes_def effective_alignment_idem)

lemma allocate_bytes_Inr_aligned:
  assumes "allocate_bytes g s bytes alignment = Some (Inr p, s')" and "bytes \<noteq> 0"
  shows "p \<noteq> 0 \<and> unat p mod unat (effective_alignment alignment) = 0"
  using assms
  by (auto simp: allocate_bytes_def Let_def
      split: option.splits if_splits prod.splits sum.splits
      dest: try_alloc_at_active_aligned [OF _ is_pow_2_effective_alignment])

text \<open>Alignments of the runs below: 1, 8 and 16 are powers of two, 3 is not.\<close>

lemma is_pow_2_1: "is_pow_2 1"
  unfolding is_pow_2_def by (rule bexI [of _ 0]) simp_all

lemma is_pow_2_8: "is_pow_2 8"
  unfolding is_pow_2_def by (rule bexI [of _ 3]) simp_all

lemma is_pow_2_16: "is_pow_2 16"
  unfolding is_pow_2_def by (rule bexI [of _ 4]) simp_all

lemma not_is_pow_2_3: "\<not> is_pow_2 3"
proof
  assume "is_pow_2 3"
  then obtain n where n: "(3 :: 64 word) = 2 ^ n" by (auto simp: is_pow_2_def)
  show False
  proof (cases n)
    case 0
    with n show False by simp
  next
    case (Suc k)
    then have "even ((2 :: 64 word) ^ n)" by simp
    with n have "even (3 :: 64 word)" by simp
    then show False by simp
  qed
qed

text \<open>
  C7. For a request of \<open>bytes > 0\<close>: an alignment that is zero or not a power of two is
  replaced by \<^verbatim>\<open>alignof(std::max_align_t)\<close>, and the call then does exactly what the call with
  the default alignment does, so it fails only where that call fails; a valid alignment
  is kept; the effective alignment is a power of two; and every address the call returns
  is non-null and a multiple of the effective alignment.
\<close>

theorem allocate_bytes_alignment:
  assumes "bytes \<noteq> 0"
  shows "(alignment = 0 \<or> \<not> is_pow_2 alignment \<longrightarrow>
            effective_alignment alignment = max_align
          \<and> allocate_bytes g s bytes alignment = allocate_bytes g s bytes max_align)
       \<and> (alignment \<noteq> 0 \<and> is_pow_2 alignment \<longrightarrow> effective_alignment alignment = alignment)
       \<and> is_pow_2 (effective_alignment alignment)
       \<and> (\<forall>p s'. allocate_bytes g s bytes alignment = Some (Inr p, s') \<longrightarrow>
             p \<noteq> 0 \<and> unat p mod unat (effective_alignment alignment) = 0)"
proof (intro conjI impI allI)
  assume bad: "alignment = 0 \<or> \<not> is_pow_2 alignment"
  then show e: "effective_alignment alignment = max_align"
    by (rule effective_alignment_default)
  show "allocate_bytes g s bytes alignment = allocate_bytes g s bytes max_align"
    using allocate_bytes_effective [of g s bytes alignment] e by simp
next
  assume "alignment \<noteq> 0 \<and> is_pow_2 alignment"
  then show "effective_alignment alignment = alignment"
    by (simp add: effective_alignment_def)
next
  show "is_pow_2 (effective_alignment alignment)"
    by (rule is_pow_2_effective_alignment)
next
  fix p s'
  assume "allocate_bytes g s bytes alignment = Some (Inr p, s')"
  then have r: "p \<noteq> 0 \<and> unat p mod unat (effective_alignment alignment) = 0"
    using assms by (rule allocate_bytes_Inr_aligned)
  from r show "p \<noteq> 0" by simp
  from r show "unat p mod unat (effective_alignment alignment) = 0" by simp
qed


theorem allocate_bytes_alignment_witness:
  "(8 :: size_t) \<noteq> 0 \<and> \<not> is_pow_2 3 \<and> effective_alignment 3 = max_align
   \<and> allocate_bytes None
        \<lparr>blocks = [1 \<mapsto> \<lparr>data = 0x10000, cur = 0x10064, end_ptr = 0x10400, nxt = None,
                           capacity = 1024\<rparr>],
         block_size = 1024, head = Some 1, active = Some 1\<rparr> 8 3
     = allocate_bytes None
        \<lparr>blocks = [1 \<mapsto> \<lparr>data = 0x10000, cur = 0x10064, end_ptr = 0x10400, nxt = None,
                           capacity = 1024\<rparr>],
         block_size = 1024, head = Some 1, active = Some 1\<rparr> 8 max_align
   \<and> allocate_bytes None
        \<lparr>blocks = [1 \<mapsto> \<lparr>data = 0x10000, cur = 0x10064, end_ptr = 0x10400, nxt = None,
                           capacity = 1024\<rparr>],
         block_size = 1024, head = Some 1, active = Some 1\<rparr> 8 3
     = Some (Inr 0x10070,
        \<lparr>blocks = [1 \<mapsto> \<lparr>data = 0x10000, cur = 0x10078, end_ptr = 0x10400, nxt = None,
                           capacity = 1024\<rparr>],
         block_size = 1024, head = Some 1, active = Some 1\<rparr>)
   \<and> (0x10070 :: byte_ptr) \<noteq> 0 \<and> unat (0x10070 :: byte_ptr) mod unat (effective_alignment 3) = 0
   \<and> (32 :: size_t) \<noteq> 0 \<and> is_pow_2 32 \<and> effective_alignment 32 = 32
   \<and> allocate_bytes None
        \<lparr>blocks = [1 \<mapsto> \<lparr>data = 0x10000, cur = 0x10064, end_ptr = 0x10400, nxt = None,
                           capacity = 1024\<rparr>],
         block_size = 1024, head = Some 1, active = Some 1\<rparr> 8 32
     = Some (Inr 0x10080,
        \<lparr>blocks = [1 \<mapsto> \<lparr>data = 0x10000, cur = 0x10088, end_ptr = 0x10400, nxt = None,
                           capacity = 1024\<rparr>],
         block_size = 1024, head = Some 1, active = Some 1\<rparr>)
   \<and> unat (0x10080 :: byte_ptr) mod unat (effective_alignment 32) = 0"
proof -
  let ?s = "\<lparr>blocks = [1 \<mapsto> \<lparr>data = 0x10000, cur = 0x10064, end_ptr = 0x10400, nxt = None,
                           capacity = 1024\<rparr>],
         block_size = 1024, head = Some 1, active = Some 1\<rparr>"
  have b: "(8 :: size_t) \<noteq> 0" by simp
  have p32: "is_pow_2 32"
    unfolding is_pow_2_def by (rule bexI [of _ 5]) simp_all
  have run3: "allocate_bytes None ?s 8 3 = Some (Inr 0x10070,
        \<lparr>blocks = [1 \<mapsto> \<lparr>data = 0x10000, cur = 0x10078, end_ptr = 0x10400, nxt = None,
                           capacity = 1024\<rparr>],
         block_size = 1024, head = Some 1, active = Some 1\<rparr>)"
    by (simp add: allocate_bytes_def try_alloc_at_active_def active_block_def
        effective_alignment_def align_up_def not_is_pow_2_3 max_align_def)
  have run32: "allocate_bytes None ?s 8 32 = Some (Inr 0x10080,
        \<lparr>blocks = [1 \<mapsto> \<lparr>data = 0x10000, cur = 0x10088, end_ptr = 0x10400, nxt = None,
                           capacity = 1024\<rparr>],
         block_size = 1024, head = Some 1, active = Some 1\<rparr>)"
    by (simp add: allocate_bytes_def try_alloc_at_active_def active_block_def
        effective_alignment_def align_up_def p32)
  from allocate_bytes_alignment [OF b, of 3 None ?s] not_is_pow_2_3 run3
  have i3: "effective_alignment 3 = max_align
      \<and> allocate_bytes None ?s 8 3 = allocate_bytes None ?s 8 max_align
      \<and> unat (0x10070 :: byte_ptr) mod unat (effective_alignment 3) = 0"
    by (simp add: max_align_def)
  from allocate_bytes_alignment [OF b, of 32 None ?s] p32 run32
  have i32: "effective_alignment 32 = 32
      \<and> unat (0x10080 :: byte_ptr) mod unat (effective_alignment 32) = 0"
    by simp
  from i3 i32 not_is_pow_2_3 p32 run3 run32 show ?thesis by (simp add: max_align_def)
qed

section \<open>Growing the chain\<close>

lemma overflow_addition_False:
  assumes "overflow_addition a b = (False, need)"
  shows "need = a + b" and "unat need = unat a + unat b"
proof -
  from assms show n: "need = a + b" and "unat need = unat a + unat b"
    by (auto simp: overflow_addition_def not_less no_olen_add_nat unat_add_lem [THEN iffD1])
qed

lemma unat_new_capacity:
  "unat need \<le> unat (new_capacity c need bsz)" "unat bsz \<le> unat (new_capacity c need bsz)"
  "unat (c * 2) \<le> unat (new_capacity c need bsz)"
  by (simp_all add: new_capacity_def word_le_nat_alt [symmetric] max.coboundedI1)

lemma fresh_block_fits:
  assumes al: "is_pow_2 al"
    and need: "unat bytes + unat al \<le> unat n"
    and d: "d \<noteq> 0" "unat d + unat n < 2 ^ 64"
  defines "q \<equiv> align_up d al"
  shows "\<not> (d + n) - q < bytes" and "q \<noteq> 0" and "unat d \<le> unat q"
    and "unat q + unat bytes \<le> unat d + unat n"
proof -
  have b: "unat d \<le> unat q" "unat q < unat d + unat al"
    unfolding q_def by (rule align_up_bounds [OF al]; use need d in simp)+
  have e: "unat (d + n) = unat d + unat n"
    using d(2) by (simp add: unat_add_lem [THEN iffD1])
  have "q \<le> d + n" using b need e by (simp add: word_le_nat_alt)
  then have "unat (d + n - q) = unat d + unat n - unat q"
    by (simp add: unat_sub e)
  then have "unat bytes \<le> unat (d + n - q)" using b need by simp
  then show "\<not> (d + n) - q < bytes" by (simp add: word_less_nat_alt)
  have "0 < unat d" using d(1) by (simp add: unat_gt_0)
  then show "q \<noteq> 0" using b(1) by auto
  show "unat d \<le> unat q" by (rule b)
  show "unat q + unat bytes \<le> unat d + unat n" using b need by simp
qed

lemma allocate_bytes_grow:
  assumes bytes: "bytes \<noteq> 0"
    and first: "try_alloc_at_active s bytes (effective_alignment alignment) = Some (0, s1)"
    and ovf: "overflow_addition bytes (effective_alignment alignment) = (False, need)"
    and act: "active_block s1 = Some (a, ab)"
    and ok: "grant_ok (blocks s1) (new_capacity (capacity ab) need (block_size s1)) (r, d)"
  defines "n \<equiv> new_capacity (capacity ab) need (block_size s1)"
    and "q \<equiv> align_up d (effective_alignment alignment)"
  shows "allocate_bytes (Some (r, d)) s bytes alignment =
           Some (Inr q,
             s1\<lparr>blocks := (blocks s1)(a \<mapsto> ab\<lparr>nxt := Some r\<rparr>,
                                        r \<mapsto> (block_ctor d n)\<lparr>cur := q + bytes\<rparr>),
                active := Some r\<rparr>)"
    and "q \<noteq> 0" and "unat d \<le> unat q" and "unat q + unat bytes \<le> unat d + unat n"
proof -
  let ?al = "effective_alignment alignment"
  from ok have fresh: "blocks s1 r = None" and d: "d \<noteq> 0" "unat d + unat n < 2 ^ 64"
    by (simp_all add: grant_ok_def n_def)
  from act have a: "active s1 = Some a" "blocks s1 a = Some ab"
    by (auto simp: active_block_def split: option.splits)
  with fresh have ra: "r \<noteq> a" by auto
  have need: "unat bytes + unat ?al \<le> unat n"
    using overflow_addition_False(2) [OF ovf] unat_new_capacity(1) [of need "capacity ab" "block_size s1"]
    by (simp add: n_def)
  note fit = fresh_block_fits [OF is_pow_2_effective_alignment need d, folded q_def]
  show "q \<noteq> 0" "unat d \<le> unat q" "unat q + unat bytes \<le> unat d + unat n"
    by (rule fit)+
  have retry: "try_alloc_at_active
      (s1\<lparr>blocks := (blocks s1)(r \<mapsto> block_ctor d n, a \<mapsto> ab\<lparr>nxt := Some r\<rparr>), active := Some r\<rparr>)
      bytes ?al =
    Some (q, s1\<lparr>blocks := (blocks s1)(a \<mapsto> ab\<lparr>nxt := Some r\<rparr>,
                                        r \<mapsto> (block_ctor d n)\<lparr>cur := q + bytes\<rparr>),
                active := Some r\<rparr>)"
    using fit(1) ra
    by (auto simp: try_alloc_at_active_def active_block_def block_ctor_def q_def Let_def fun_upd_twist)
  show "allocate_bytes (Some (r, d)) s bytes alignment =
           Some (Inr q,
             s1\<lparr>blocks := (blocks s1)(a \<mapsto> ab\<lparr>nxt := Some r\<rparr>,
                                        r \<mapsto> (block_ctor d n)\<lparr>cur := q + bytes\<rparr>),
                active := Some r\<rparr>)"
    using bytes first ovf act a ra fit(2) retry
    by (simp add: allocate_bytes_def new_block_def n_def [symmetric])
qed

text \<open>
  C8. Take a request of \<open>bytes > 0\<close> whose first attempt on the active block returned
  \<^verbatim>\<open>nullptr\<close> (leaving the arena \<open>s1\<close>), whose \<open>bytes + alignment\<close> does not overflow, and
  for which the system grants the new block. Then \<^verbatim>\<open>allocate_bytes\<close> returns an address,
  never \<^verbatim>\<open>std::bad_alloc\<close>: the retry on the new block succeeds, so the throw after it is
  not reached. The address is the new block's \<open>data\<close> rounded up, it is not null, the
  request lies inside the new block, and the new block is the active one.
\<close>

theorem retry_after_growth_succeeds:
  assumes "bytes \<noteq> 0"
    and "try_alloc_at_active s bytes (effective_alignment alignment) = Some (0, s1)"
    and "overflow_addition bytes (effective_alignment alignment) = (False, need)"
    and "active_block s1 = Some (a, ab)"
    and "grant_ok (blocks s1) (new_capacity (capacity ab) need (block_size s1)) (r, d)"
  shows "\<exists>q s3. allocate_bytes (Some (r, d)) s bytes alignment = Some (Inr q, s3)
           \<and> q = align_up d (effective_alignment alignment) \<and> q \<noteq> 0
           \<and> active s3 = Some r
           \<and> unat d \<le> unat q
           \<and> unat q + unat bytes
               \<le> unat d + unat (new_capacity (capacity ab) need (block_size s1))"
  using allocate_bytes_grow [OF assms] by simp

theorem retry_after_growth_succeeds_witness:
  "(2000 :: size_t) \<noteq> 0
   \<and> try_alloc_at_active
        \<lparr>blocks = [1 \<mapsto> \<lparr>data = 0x10000, cur = 0x10000, end_ptr = 0x10400, nxt = None,
                           capacity = 1024\<rparr>],
         block_size = 1024, head = Some 1, active = Some 1\<rparr> 2000 (effective_alignment 8)
     = Some (0,
        \<lparr>blocks = [1 \<mapsto> \<lparr>data = 0x10000, cur = 0x10000, end_ptr = 0x10400, nxt = None,
                           capacity = 1024\<rparr>],
         block_size = 1024, head = Some 1, active = Some 1\<rparr>)
   \<and> overflow_addition 2000 (effective_alignment 8) = (False, 2008)
   \<and> active_block
        \<lparr>blocks = [1 \<mapsto> \<lparr>data = 0x10000, cur = 0x10000, end_ptr = 0x10400, nxt = None,
                           capacity = 1024\<rparr>],
         block_size = 1024, head = Some 1, active = Some 1\<rparr>
     = Some (1, \<lparr>data = 0x10000, cur = 0x10000, end_ptr = 0x10400, nxt = None,
                  capacity = 1024\<rparr>)
   \<and> grant_ok [1 \<mapsto> \<lparr>data = 0x10000, cur = 0x10000, end_ptr = 0x10400, nxt = None,
                           capacity = 1024\<rparr>] (new_capacity 1024 2008 1024) (2, 0x20000)
   \<and> (\<exists>s3. allocate_bytes (Some (2, 0x20000))
        \<lparr>blocks = [1 \<mapsto> \<lparr>data = 0x10000, cur = 0x10000, end_ptr = 0x10400, nxt = None,
                           capacity = 1024\<rparr>],
         block_size = 1024, head = Some 1, active = Some 1\<rparr> 2000 8
          = Some (Inr 0x20000, s3) \<and> active s3 = Some 2)"
proof -
  let ?b = "\<lparr>data = 0x10000, cur = 0x10000, end_ptr = 0x10400, nxt = None,
                           capacity = 1024 :: size_t\<rparr>"
  let ?s = "\<lparr>blocks = [1 \<mapsto> ?b], block_size = 1024, head = Some 1, active = Some 1\<rparr>"
  have e: "effective_alignment 8 = 8"
    by (simp add: effective_alignment_def is_pow_2_8)
  have h1: "(2000 :: size_t) \<noteq> 0" by simp
  have h2: "try_alloc_at_active ?s 2000 (effective_alignment 8) = Some (0, ?s)"
    by (simp add: e try_alloc_at_active_def active_block_def align_up_def)
  have h3: "overflow_addition 2000 (effective_alignment 8) = (False, 2008)"
    by (simp add: e overflow_addition_def)
  have h4: "active_block ?s = Some (1, ?b)"
    by (simp add: active_block_def)
  have h5: "grant_ok (blocks ?s) (new_capacity (capacity ?b) 2008 (block_size ?s)) (2, 0x20000)"
    by (simp add: grant_ok_def new_capacity_def)
  have a: "align_up 0x20000 (effective_alignment 8) = 0x20000"
    by (simp add: e align_up_def)
  from retry_after_growth_succeeds [OF h1 h2 h3 h4 h5] h2 h3 h4 h5 a
  show ?thesis by auto
qed

text \<open>
  The rest of the growth step: the overflow flag is exact and makes the call throw, the
  new capacity is the largest of the three sizes as long as doubling does not wrap, and
  exactly one block is added, linked behind the block that was active.
\<close>

lemma overflow_addition_flag:
  "fst (overflow_addition a b) \<longleftrightarrow> 2 ^ 64 \<le> unat a + unat b"
proof -
  have "a + b < a \<longleftrightarrow> \<not> a \<le> a + b" by auto
  also have "\<dots> \<longleftrightarrow> \<not> unat a + unat b < 2 ^ LENGTH(64)" by (simp only: no_olen_add_nat)
  finally show ?thesis by (simp add: overflow_addition_def not_less)
qed

lemma allocate_bytes_overflow:
  assumes "bytes \<noteq> 0"
    and "try_alloc_at_active s bytes (effective_alignment alignment) = Some (0, s1)"
    and "overflow_addition bytes (effective_alignment alignment) = (True, need)"
  shows "allocate_bytes g s bytes alignment = Some (Inl bad_alloc, s1)"
  using assms by (simp add: allocate_bytes_def)

lemma new_capacity_policy:
  assumes "unat c < 2 ^ 63"
  shows "unat (new_capacity c need bsz) = max (max (2 * unat c) (unat need)) (unat bsz)"
proof -
  have "unat c * 2 < 2 ^ LENGTH(64)" using assms by simp
  then have "unat (c * 2) = unat c * unat (2 :: 64 word)"
    by (simp add: unat_mult_lem [THEN iffD1])
  then have "unat (c * 2) = 2 * unat c" by simp
  moreover have "\<And>x y :: 64 word. unat (max x y) = max (unat x) (unat y)"
    by (simp add: max_def word_le_nat_alt)
  ultimately show ?thesis by (simp add: new_capacity_def)
qed

lemma allocate_bytes_grow_blocks:
  assumes "bytes \<noteq> 0"
    and "try_alloc_at_active s bytes (effective_alignment alignment) = Some (0, s1)"
    and "overflow_addition bytes (effective_alignment alignment) = (False, need)"
    and "active_block s1 = Some (a, ab)"
    and "grant_ok (blocks s1) (new_capacity (capacity ab) need (block_size s1)) (r, d)"
    and "allocate_bytes (Some (r, d)) s bytes alignment = Some (res, s3)"
  shows "dom (blocks s3) = insert r (dom (blocks s1))"
    and "map_option capacity (blocks s3 r)
          = Some (new_capacity (capacity ab) need (block_size s1))"
    and "map_option nxt (blocks s3 a) = Some (Some r)"
proof -
  from assms(4) have a: "blocks s1 a = Some ab"
    by (auto simp: active_block_def split: option.splits)
  from assms(5) a have ra: "r \<noteq> a" by (auto simp: grant_ok_def)
  note g = allocate_bytes_grow(1) [OF assms(1-5)]
  from g assms(6) a show "dom (blocks s3) = insert r (dom (blocks s1))"
    by auto
  from g assms(6) show "map_option capacity (blocks s3 r)
          = Some (new_capacity (capacity ab) need (block_size s1))"
    by (auto simp: block_ctor_def)
  from g assms(6) ra show "map_option nxt (blocks s3 a) = Some (Some r)"
    by auto
qed

section \<open>The chain and rollback\<close>

lemma chain_nxt_cong:
  assumes "\<And>x. map_option nxt (bs' x) = map_option nxt (bs x)"
  shows "chain bs' p rs = chain bs p rs"
proof (induction rs arbitrary: p)
  case Nil
  show ?case by simp
next
  case (Cons r rs)
  from assms [of r] show ?case
    by (cases "bs r"; cases "bs' r") (auto simp: Cons.IH)
qed

lemma chain_unique: "chain bs p rs \<Longrightarrow> chain bs p rs' \<Longrightarrow> rs = rs'"
proof (induction rs arbitrary: p rs')
  case Nil
  then show ?case by (cases rs') auto
next
  case (Cons r rs)
  then show ?case by (cases rs') (auto split: option.splits)
qed

lemma chain_Cons_iff:
  "chain bs p (r # rs) \<longleftrightarrow> p = Some r \<and> (\<exists>b. bs r = Some b \<and> chain bs (nxt b) rs)"
  by (auto split: option.splits)

lemma chain_suffix:
  "chain bs p (xs @ r # ys) \<Longrightarrow> chain bs (Some r) (r # ys)"
proof (induction xs arbitrary: p)
  case Nil
  then show ?case by (simp add: chain_Cons_iff del: chain.simps)
next
  case (Cons x xs)
  from Cons.prems obtain b :: block where "chain bs (nxt b) (xs @ r # ys)"
    by (auto simp: chain_Cons_iff simp del: chain.simps)
  then show ?case by (rule Cons.IH)
qed

lemma chain_head_notin_tail:
  assumes "chain bs (Some r) (r # rs)"
  shows "r \<notin> set rs"
proof
  assume "r \<in> set rs"
  then obtain xs ys where rs: "rs = xs @ r # ys" by (auto simp: in_set_conv_decomp)
  with assms have "chain bs (Some r) ((r # xs) @ r # ys)" by simp
  then have "chain bs (Some r) (r # ys)" by (rule chain_suffix)
  with assms have "r # rs = r # ys" by (rule chain_unique)
  with rs show False by simp
qed

lemma chain_distinct: "chain bs p rs \<Longrightarrow> distinct rs"
proof (induction rs arbitrary: p)
  case Nil
  show ?case by simp
next
  case (Cons r rs)
  from Cons.prems have "chain bs (Some r) (r # rs)" by simp
  then have "r \<notin> set rs" by (rule chain_head_notin_tail)
  moreover from Cons.prems have "\<exists>q. chain bs q rs" by (auto split: option.splits)
  ultimately show ?case using Cons.IH by auto
qed

lemma reset_chain_chain:
  assumes "chain bs p rs"
  shows "reset_chain bs p =
    Some (\<lambda>x. if x \<in> set rs then map_option (\<lambda>b. b\<lparr>cur := data b\<rparr>) (bs x) else bs x)"
  using assms
proof (induction rs arbitrary: bs p)
  case Nil
  then show ?case by (simp add: reset_chain.simps)
next
  case (Cons r rs)
  from Cons.prems obtain b where p: "p = Some r" and b: "bs r = Some b"
    and tl: "chain bs (nxt b) rs"
    by (auto split: option.splits)
  let ?bs = "bs(r \<mapsto> b\<lparr>cur := data b\<rparr>)"
  have "chain ?bs (nxt b) rs = chain bs (nxt b) rs"
    by (rule chain_nxt_cong) (simp add: b)
  with tl have "chain ?bs (nxt b) rs" by simp
  then have "reset_chain ?bs (nxt b) =
    Some (\<lambda>x. if x \<in> set rs then map_option (\<lambda>b. b\<lparr>cur := data b\<rparr>) (?bs x) else ?bs x)"
    by (rule Cons.IH)
  moreover have "reset_chain bs p = reset_chain ?bs (nxt b)"
    by (subst reset_chain.simps) (simp add: p b)
  ultimately show ?case by (auto simp: b fun_eq_iff)
qed

lemma rollback_to_chain:
  assumes "chain (blocks s) (mem m) (r # post)"
  shows "rollback_to s m =
    Some (s\<lparr>active := Some r,
            blocks := (\<lambda>x. if x = r then map_option (\<lambda>b. b\<lparr>cur := mcur m\<rparr>) (blocks s x)
                           else if x \<in> set post
                                then map_option (\<lambda>b. b\<lparr>cur := data b\<rparr>) (blocks s x)
                                else blocks s x)\<rparr>)"
proof -
  from assms obtain b where m: "mem m = Some r" and b: "blocks s r = Some b"
    and tl: "chain (blocks s) (nxt b) post"
    by (auto split: option.splits)
  from assms m have "r \<notin> set post" by (simp add: chain_head_notin_tail)
  let ?bs = "(blocks s)(r \<mapsto> b\<lparr>cur := mcur m\<rparr>)"
  have "chain ?bs (nxt b) post = chain (blocks s) (nxt b) post"
    by (rule chain_nxt_cong) (simp add: b)
  with tl have "chain ?bs (nxt b) post" by simp
  then have "reset_chain ?bs (nxt b) =
    Some (\<lambda>x. if x \<in> set post then map_option (\<lambda>b. b\<lparr>cur := data b\<rparr>) (?bs x) else ?bs x)"
    by (rule reset_chain_chain)
  moreover have "(\<lambda>x. if x \<in> set post then map_option (\<lambda>b. b\<lparr>cur := data b\<rparr>) (?bs x) else ?bs x)
    = (\<lambda>x. if x = r then map_option (\<lambda>b. b\<lparr>cur := mcur m\<rparr>) (blocks s x)
                           else if x \<in> set post
                                then map_option (\<lambda>b. b\<lparr>cur := data b\<rparr>) (blocks s x)
                                else blocks s x)"
    using \<open>r \<notin> set post\<close> by (auto simp: fun_eq_iff b)
  ultimately show ?thesis by (simp add: rollback_to_def m b)
qed

text \<open>
  C4. Let the marker's block \<open>r\<close> be live and let \<open>post\<close> be the blocks that following
  \<^verbatim>\<open>next\<close> from \<open>r\<close> visits after \<open>r\<close>, up to \<^verbatim>\<open>nullptr\<close>: this is what a marker captured
  from this arena and not stale gives. Then \<^verbatim>\<open>rollback_to\<close> returns, \<^verbatim>\<open>_active\<close> is \<open>r\<close>,
  the cursor of \<open>r\<close> is the marker's saved cursor, the cursor of every block of \<open>post\<close> is
  that block's \<open>data\<close>, and nothing else has changed: not \<^verbatim>\<open>_head\<close>, not \<^verbatim>\<open>_block_size\<close>,
  not which blocks are live, no other field of \<open>r\<close> or of a block of \<open>post\<close>, and no
  block outside them.
\<close>

theorem rollback_to_effect:
  assumes "chain (blocks s) (mem m) (r # post)"
  shows "\<exists>s'. rollback_to s m = Some s'
           \<and> active s' = Some r \<and> head s' = head s \<and> block_size s' = block_size s
           \<and> (\<forall>x. blocks s' x =
                  (if x = r then map_option (\<lambda>b. b\<lparr>cur := mcur m\<rparr>) (blocks s x)
                   else if x \<in> set post
                        then map_option (\<lambda>b. b\<lparr>cur := data b\<rparr>) (blocks s x)
                        else blocks s x))"
  by (simp add: rollback_to_chain [OF assms])

theorem rollback_to_effect_witness:
  "chain [1 \<mapsto> \<lparr>data = 0x10000, cur = 0x10200, end_ptr = 0x10400, nxt = Some 2, capacity = 1024\<rparr>,
          2 \<mapsto> \<lparr>data = 0x20000, cur = 0x207D0, end_ptr = 0x20800, nxt = None, capacity = 2048\<rparr>]
     (mem \<lparr>mem = Some 1, mcur = 0x10100\<rparr>) (1 # [2])
   \<and> (\<exists>s'. rollback_to
         \<lparr>blocks = [1 \<mapsto> \<lparr>data = 0x10000, cur = 0x10200, end_ptr = 0x10400, nxt = Some 2, capacity = 1024\<rparr>,
                    2 \<mapsto> \<lparr>data = 0x20000, cur = 0x207D0, end_ptr = 0x20800, nxt = None, capacity = 2048\<rparr>],
          block_size = 1024, head = Some 1, active = Some 2\<rparr>
         \<lparr>mem = Some 1, mcur = 0x10100\<rparr> = Some s'
       \<and> active s' = Some 1 \<and> head s' = Some 1 \<and> block_size s' = 1024
       \<and> blocks s' 1 = Some \<lparr>data = 0x10000, cur = 0x10100, end_ptr = 0x10400, nxt = Some 2, capacity = 1024\<rparr>
       \<and> blocks s' 2 = Some \<lparr>data = 0x20000, cur = 0x20000, end_ptr = 0x20800, nxt = None, capacity = 2048\<rparr>
       \<and> blocks s' 3 = None)"
proof -
  let ?s = "\<lparr>blocks = [1 \<mapsto> \<lparr>data = 0x10000, cur = 0x10200, end_ptr = 0x10400, nxt = Some 2, capacity = 1024 :: size_t\<rparr>,
                    2 \<mapsto> \<lparr>data = 0x20000, cur = 0x207D0, end_ptr = 0x20800, nxt = None, capacity = 2048\<rparr>],
          block_size = 1024 :: size_t, head = Some 1, active = Some 2\<rparr>"
  let ?m = "\<lparr>mem = Some 1, mcur = 0x10100 :: byte_ptr\<rparr>"
  have h: "chain (blocks ?s) (mem ?m) (1 # [2])" by simp
  from rollback_to_effect [OF h] obtain s' where
    r: "rollback_to ?s ?m = Some s'" "active s' = Some 1" "head s' = head ?s"
      "block_size s' = block_size ?s"
    and b: "\<forall>x. blocks s' x =
                  (if x = 1 then map_option (\<lambda>b. b\<lparr>cur := mcur ?m\<rparr>) (blocks ?s x)
                   else if x \<in> set [2]
                        then map_option (\<lambda>b. b\<lparr>cur := data b\<rparr>) (blocks ?s x)
                        else blocks ?s x)"
    by blast
  from b have "blocks s' 1 = Some \<lparr>data = 0x10000, cur = 0x10100, end_ptr = 0x10400, nxt = Some 2, capacity = 1024\<rparr>"
    and "blocks s' 2 = Some \<lparr>data = 0x20000, cur = 0x20000, end_ptr = 0x20800, nxt = None, capacity = 2048\<rparr>"
    and "blocks s' 3 = None"
    by simp_all
  with r h show ?thesis by simp
qed

section \<open>What every operation preserves\<close>

text \<open>
  The constructor establishes the invariant; \<^verbatim>\<open>allocate_bytes\<close> (when the system answers
  with a new block object) and \<^verbatim>\<open>rollback_to\<close> (with a marker into the chain) return and
  keep it, for some chain; \<^verbatim>\<open>create_marker\<close> returns a marker into the chain.
\<close>

lemma chain_live: "chain bs p rs \<Longrightarrow> r \<in> set rs \<Longrightarrow> \<exists>b. bs r = Some b"
  by (induction rs arbitrary: p) (auto simp: chain_Cons_iff simp del: chain.simps(2))

lemma arena_inv_active:
  assumes "arena_inv s rs"
  obtains a b where "active s = Some a" "a \<in> set rs" "blocks s a = Some b"
    "active_block s = Some (a, b)"
proof -
  from assms obtain a where a: "active s = Some a" "a \<in> set rs"
    and c: "chain (blocks s) (head s) rs"
    by (auto simp: arena_inv_def split: option.splits)
  from chain_live [OF c a(2)] obtain b where "blocks s a = Some b" by blast
  with a that show ?thesis by (auto simp: active_block_def)
qed

lemma arena_ctor_inv:
  assumes "arena_ctor (Some (r, d)) n = Inr s"
  shows "arena_inv s [r]"
  using assms
  by (auto simp: arena_ctor_def new_block_def block_ctor_def arena_inv_def Let_def)

lemma create_marker_inv:
  assumes "arena_inv s rs"
  shows "\<exists>m r. create_marker s = Some m \<and> mem m = Some r \<and> r \<in> set rs"
  using assms by (rule arena_inv_active) (auto simp: create_marker_def)

lemma chain_split:
  assumes "chain bs p rs" and "r \<in> set rs"
  obtains pre post where "rs = pre @ r # post" "chain bs (Some r) (r # post)"
proof -
  from assms(2) obtain pre post where rs: "rs = pre @ r # post"
    by (auto simp: in_set_conv_decomp)
  from assms(1) [unfolded rs] have "chain bs (Some r) (r # post)" by (rule chain_suffix)
  with rs that show ?thesis by blast
qed

lemma rollback_to_inv:
  assumes inv: "arena_inv s rs" and m: "mem m = Some r" "r \<in> set rs"
  shows "\<exists>s'. rollback_to s m = Some s' \<and> arena_inv s' rs"
proof -
  from inv have c: "chain (blocks s) (head s) rs" by (simp add: arena_inv_def)
  from c m(2) obtain pre post where rs: "rs = pre @ r # post"
    and cr: "chain (blocks s) (Some r) (r # post)" by (rule chain_split)
  let ?bs = "\<lambda>x. if x = r then map_option (\<lambda>b. b\<lparr>cur := mcur m\<rparr>) (blocks s x)
                           else if x \<in> set post
                                then map_option (\<lambda>b. b\<lparr>cur := data b\<rparr>) (blocks s x)
                                else blocks s x"
  from cr m(1) have eq: "rollback_to s m = Some (s\<lparr>active := Some r, blocks := ?bs\<rparr>)"
    using rollback_to_chain [of s m r post] by simp
  have "chain ?bs (head s) rs = chain (blocks s) (head s) rs"
    by (rule chain_nxt_cong) (auto simp: option.map_comp comp_def)
  with c m(2) have "arena_inv (s\<lparr>active := Some r, blocks := ?bs\<rparr>) rs"
    by (simp add: arena_inv_def)
  with eq show ?thesis by simp
qed

lemma chain_relink:
  assumes "chain bs p (pre @ a # post)" and "bs r = None" and "bs a = Some ab"
    and "nxt nb = None"
  shows "chain (bs(r \<mapsto> nb, a \<mapsto> ab\<lparr>nxt := Some r\<rparr>)) p (pre @ [a, r])"
proof -
  from assms(1) have "distinct (pre @ a # post)" by (rule chain_distinct)
  then have "a \<notin> set pre" by simp
  with assms(1) show ?thesis
  proof (induction pre arbitrary: p)
    case Nil
    with assms(2-4) show ?case by (auto simp: chain_Cons_iff simp del: chain.simps(2))
  next
    case (Cons x pre)
    from Cons.prems obtain b :: block where p: "p = Some x" and b: "bs x = Some b"
      and tl: "chain bs (nxt b) (pre @ a # post)"
      by (auto simp: chain_Cons_iff simp del: chain.simps(2))
    from Cons.prems have xa: "x \<noteq> a" "a \<notin> set pre" by auto
    from b assms(2) have xr: "x \<noteq> r" by auto
    from Cons.IH [OF tl xa(2)] p b xa xr show ?case
      by (simp add: chain_Cons_iff del: chain.simps(2))
  qed
qed

lemma try_alloc_at_active_inv:
  assumes "arena_inv s rs"
  shows "\<exists>p s'. try_alloc_at_active s bytes al = Some (p, s') \<and> arena_inv s' rs
           \<and> dom (blocks s') = dom (blocks s)"
proof -
  from assms obtain a b where a: "active s = Some a" "blocks s a = Some b"
    "active_block s = Some (a, b)" by (rule arena_inv_active)
  have "chain ((blocks s)(a \<mapsto> b\<lparr>cur := align_up (cur b) al + bytes\<rparr>)) (head s) rs
      = chain (blocks s) (head s) rs"
    by (rule chain_nxt_cong) (simp add: a)
  with assms a show ?thesis
    by (auto simp: try_alloc_at_active_def Let_def arena_inv_def)
qed

lemma allocate_bytes_inv:
  assumes inv: "arena_inv s rs"
    and fresh: "\<And>r d. g = Some (r, d) \<Longrightarrow> blocks s r = None"
  shows "\<exists>res s' rs'. allocate_bytes g s bytes alignment = Some (res, s') \<and> arena_inv s' rs'"
proof (cases "bytes = 0")
  case True
  with inv show ?thesis by (auto simp: allocate_bytes_def)
next
  case False
  let ?al = "effective_alignment alignment"
  from try_alloc_at_active_inv [OF inv] obtain p s1 where
    t1: "try_alloc_at_active s bytes ?al = Some (p, s1)" and inv1: "arena_inv s1 rs"
    and dom1: "dom (blocks s1) = dom (blocks s)" by blast
  show ?thesis
  proof (cases "p \<noteq> 0")
    case True
    with False t1 inv1 show ?thesis by (auto simp: allocate_bytes_def)
  next
    case p0: False
    obtain ovf need where o: "overflow_addition bytes ?al = (ovf, need)" by force
    show ?thesis
    proof (cases ovf)
      case True
      with False t1 p0 o inv1 show ?thesis by (auto simp: allocate_bytes_def)
    next
      case nov: False
      from inv1 obtain a ab where a: "active s1 = Some a" "a \<in> set rs" "blocks s1 a = Some ab"
        "active_block s1 = Some (a, ab)" by (rule arena_inv_active)
      show ?thesis
      proof (cases g)
        case None
        with False t1 p0 o nov a inv1 show ?thesis
          by (auto simp: allocate_bytes_def new_block_def)
      next
        case (Some rd)
        obtain r d where rd: "rd = (r, d)" by force
        with Some fresh have "blocks s r = None" by simp
        with dom1 have fr: "blocks s1 r = None" by (auto simp: domIff)
        with a have ra: "r \<noteq> a" by auto
        let ?n = "new_capacity (capacity ab) need (block_size s1)"
        let ?s2 = "s1\<lparr>blocks := (blocks s1)(r \<mapsto> block_ctor d ?n, a \<mapsto> ab\<lparr>nxt := Some r\<rparr>),
                      active := Some r\<rparr>"
        from inv1 have c1: "chain (blocks s1) (head s1) rs" by (simp add: arena_inv_def)
        from c1 a(2) obtain pre post where rs: "rs = pre @ a # post"
          by (auto simp: in_set_conv_decomp)
        have "chain (blocks ?s2) (head ?s2) (pre @ [a, r])"
          using chain_relink [OF c1 [unfolded rs] fr a(3), of "block_ctor d ?n"]
          by (simp add: block_ctor_def)
        then have inv2: "arena_inv ?s2 (pre @ [a, r])" by (simp add: arena_inv_def)
        from try_alloc_at_active_inv [OF inv2] obtain q s3 where
          t2: "try_alloc_at_active ?s2 bytes ?al = Some (q, s3)" and inv3: "arena_inv s3 (pre @ [a, r])"
          by blast
        from False t1 p0 o nov a Some rd ra t2 inv3 show ?thesis
          by (auto simp: allocate_bytes_def new_block_def)
      qed
    qed
  qed
qed

text \<open>
  A request served by the active block itself is replayed by \<^verbatim>\<open>rollback_to\<close>: rolling
  back to the marker taken before it and asking again returns the same address. No
  operation changes the \<open>data\<close>, \<open>end\<close> or \<open>capacity\<close> of a block.
\<close>

lemma rollback_replays_allocation:
  assumes m: "create_marker s = Some m"
    and t: "try_alloc_at_active s bytes (effective_alignment alignment) = Some (p, s1)"
    and p: "p \<noteq> 0" and bytes: "bytes \<noteq> 0"
    and c: "chain (blocks s1) (active s1) (a # post)"
  shows "allocate_bytes g s bytes alignment = Some (Inr p, s1)"
    and "\<exists>s2 s3. rollback_to s1 m = Some s2
            \<and> allocate_bytes g' s2 bytes alignment = Some (Inr p, s3)"
proof -
  let ?al = "effective_alignment alignment"
  show "allocate_bytes g s bytes alignment = Some (Inr p, s1)"
    using t p bytes by (simp add: allocate_bytes_def)
  from t obtain a' b where ab: "active_block s = Some (a', b)"
    and r: "\<not> end_ptr b - align_up (cur b) ?al < bytes" "p = align_up (cur b) ?al"
      "s1 = s\<lparr>blocks := (blocks s)(a' \<mapsto> b\<lparr>cur := align_up (cur b) ?al + bytes\<rparr>)\<rparr>"
    using p by (auto elim!: try_alloc_at_active_cases)
  from ab have a': "active s = Some a'" "blocks s a' = Some b"
    by (auto simp: active_block_def split: option.splits)
  from m a' have mm: "m = \<lparr>mem = Some a', mcur = cur b\<rparr>"
    by (simp add: create_marker_def)
  from c r(3) a' have aa: "a' = a" by (simp add: chain_Cons_iff del: chain.simps(2))
  from c r(3) a' aa have c': "chain (blocks s1) (mem m) (a # post)" by (simp add: mm)
  let ?s2 = "s1\<lparr>active := Some a,
            blocks := (\<lambda>x. if x = a then map_option (\<lambda>b. b\<lparr>cur := mcur m\<rparr>) (blocks s1 x)
                           else if x \<in> set post
                                then map_option (\<lambda>b. b\<lparr>cur := data b\<rparr>) (blocks s1 x)
                                else blocks s1 x)\<rparr>"
  have rb: "rollback_to s1 m = Some ?s2" by (rule rollback_to_chain [OF c'])
  have "active_block ?s2 = Some (a, b)"
    using r(3) aa a' by (simp add: active_block_def mm)
  then have "try_alloc_at_active ?s2 bytes ?al =
      Some (p, ?s2\<lparr>blocks := (blocks ?s2)(a \<mapsto> b\<lparr>cur := p + bytes\<rparr>)\<rparr>)"
    using r(1,2) by (simp add: try_alloc_at_active_def Let_def)
  then have "allocate_bytes g' ?s2 bytes alignment =
      Some (Inr p, ?s2\<lparr>blocks := (blocks ?s2)(a \<mapsto> b\<lparr>cur := p + bytes\<rparr>)\<rparr>)"
    using p bytes by (simp add: allocate_bytes_def)
  with rb show "\<exists>s2 s3. rollback_to s1 m = Some s2
            \<and> allocate_bytes g' s2 bytes alignment = Some (Inr p, s3)"
    by blast
qed

lemma try_alloc_at_active_frame:
  assumes "try_alloc_at_active s bytes al = Some (p, s')" and "blocks s x = Some b"
  shows "\<exists>b'. blocks s' x = Some b' \<and> data b' = data b \<and> end_ptr b' = end_ptr b
           \<and> capacity b' = capacity b \<and> nxt b' = nxt b"
  using assms(1)
  by (rule try_alloc_at_active_cases) (use assms(2) in \<open>auto simp: active_block_def split: option.splits\<close>)

lemma allocate_bytes_frame:
  assumes run: "allocate_bytes g s bytes alignment = Some (res, s')"
    and fresh: "\<And>r d. g = Some (r, d) \<Longrightarrow> blocks s r = None"
    and x: "blocks s x = Some b"
  shows "\<exists>b'. blocks s' x = Some b' \<and> data b' = data b \<and> end_ptr b' = end_ptr b
           \<and> capacity b' = capacity b"
proof (cases "bytes = 0")
  case True
  with run x show ?thesis by (simp add: allocate_bytes_def)
next
  case False
  let ?al = "effective_alignment alignment"
  from run False obtain p s1 where t1: "try_alloc_at_active s bytes ?al = Some (p, s1)"
    by (auto simp: allocate_bytes_def Let_def split: option.splits)
  from try_alloc_at_active_frame [OF t1 x] obtain b1 where
    b1: "blocks s1 x = Some b1" "data b1 = data b" "end_ptr b1 = end_ptr b"
      "capacity b1 = capacity b" by blast
  from t1 have dom1: "dom (blocks s1) = dom (blocks s)"
    by (rule try_alloc_at_active_cases)
      (auto simp: active_block_def split: option.splits if_splits)
  show ?thesis
  proof (cases "p \<noteq> 0")
    case True
    with run False t1 b1 show ?thesis by (auto simp: allocate_bytes_def)
  next
    case p0: False
    obtain ovf need where o: "overflow_addition bytes ?al = (ovf, need)" by force
    show ?thesis
    proof (cases ovf)
      case True
      with run False t1 p0 o b1 show ?thesis by (auto simp: allocate_bytes_def)
    next
      case nov: False
      from run False t1 p0 o nov obtain a ab where a: "active_block s1 = Some (a, ab)"
        by (auto simp: allocate_bytes_def split: option.splits)
      then have a': "blocks s1 a = Some ab"
        by (auto simp: active_block_def split: option.splits)
      show ?thesis
      proof (cases g)
        case None
        with run False t1 p0 o nov a b1 show ?thesis
          by (auto simp: allocate_bytes_def new_block_def)
      next
        case (Some rd)
        obtain r d where rd: "rd = (r, d)" by force
        from fresh Some rd dom1 have fr: "blocks s1 r = None" by (auto simp: domIff)
        with b1 a' have xr: "x \<noteq> r" and ra: "r \<noteq> a" by auto
        let ?s2 = "s1\<lparr>blocks := (blocks s1)(r \<mapsto> block_ctor d (new_capacity (capacity ab) need (block_size s1)),
                                      a \<mapsto> ab\<lparr>nxt := Some r\<rparr>),
              active := Some r\<rparr>"
        from run False t1 p0 o nov a a' Some rd ra obtain q where
          t2: "try_alloc_at_active ?s2 bytes ?al = Some (q, s')"
          by (auto simp: allocate_bytes_def new_block_def split: option.splits if_splits)
        have "\<exists>b2. blocks ?s2 x = Some b2 \<and> data b2 = data b \<and> end_ptr b2 = end_ptr b
           \<and> capacity b2 = capacity b"
          using b1 a' xr by auto
        then obtain b2 where b2: "blocks ?s2 x = Some b2" "data b2 = data b"
          "end_ptr b2 = end_ptr b" "capacity b2 = capacity b" by blast
        from try_alloc_at_active_frame [OF t2 b2(1)] b2 show ?thesis by auto
      qed
    qed
  qed
qed

section \<open>Runs of the code\<close>

text \<open>
  The runs below start at the constructor. The system's answers in them are ones a C++
  implementation can give: a new block object each time, storage at a 16-byte aligned
  address, and no storage that overlaps the storage of a block still live.
\<close>

lemma reset_chain_None: "reset_chain bs None = Some bs"
  by (subst reset_chain.simps) simp

lemma reset_chain_Some:
  "reset_chain bs (Some r) =
     (case bs r of None \<Rightarrow> None | Some b \<Rightarrow> reset_chain (bs(r \<mapsto> b\<lparr>cur := data b\<rparr>)) (nxt b))"
  by (subst reset_chain.simps) simp

lemma delete_chain_None: "delete_chain bs None = Some bs"
  by (subst delete_chain.simps) simp

lemma delete_chain_Some:
  "delete_chain bs (Some r) =
     (case bs r of None \<Rightarrow> None | Some b \<Rightarrow> delete_chain (bs(r := None)) (nxt b))"
  by (subst delete_chain.simps) simp

lemmas run_defs =
  arena_ctor_def new_block_def block_ctor_def allocate_bytes_def try_alloc_at_active_def
  active_block_def effective_alignment_def align_up_def overflow_addition_def new_capacity_def
  create_marker_def rollback_to_def make_def free_all_def
  reset_chain_None reset_chain_Some delete_chain_None delete_chain_Some
  is_pow_2_1 is_pow_2_8 is_pow_2_16


subsection \<open>The fit test of \<^verbatim>\<open>try_alloc_at_active\<close>\<close>

text \<open>
  C2. Every block of a live arena has \<open>data \<le> cursor \<le> end\<close> at all times. The code
  breaks this on
  \<^verbatim>\<open>arena a(1025); a.allocate_bytes(1025, 1); a.allocate_bytes(1, 16);\<close>
  The first request fills the block: \<open>cur = end = 0x10401\<close>. For the second, \<^verbatim>\<open>align_up\<close>
  gives \<open>0x10410\<close>, behind \<open>end\<close>; \<^verbatim>\<open>end - aligned\<close> is \<open>-15\<close>, its cast to \<^verbatim>\<open>std::size_t\<close> is
  \<open>2 ^ 64 - 15\<close>, which is not less than 1, so the request is committed: the call returns
  \<open>0x10410\<close> and leaves \<open>cur = 0x10411\<close>, past \<open>end\<close>.
\<close>

theorem cursor_passes_end:
  "(case arena_ctor (Some (1, 0x10000)) 1025 of
      Inr s0 \<Rightarrow>
        (case allocate_bytes None s0 1025 1 of
           Some (Inr p, s1) \<Rightarrow>
             (case allocate_bytes None s1 1 16 of
                Some (Inr q, s2) \<Rightarrow>
                  p = 0x10000 \<and> q = 0x10410
                  \<and> blocks s2 1 =
                      Some \<lparr>data = 0x10000, cur = 0x10411, end_ptr = 0x10401, nxt = None,
                            capacity = 1025\<rparr>
                  \<and> \<not> (0x10411 :: byte_ptr) \<le> 0x10401
              | _ \<Rightarrow> False)
         | _ \<Rightarrow> False)
    | Inl e \<Rightarrow> False)"
  by (simp add: run_defs)

text \<open>
  C3. A request that does not fit the active block's remaining space makes the arena
  create exactly one new block and succeed from it. The code breaks this in the arena
  after \<^verbatim>\<open>arena a(1025); a.allocate_bytes(1025, 1);\<close> where no byte of the active block
  remains and the system would grant a new block: \<^verbatim>\<open>a.allocate_bytes(1, 16)\<close> creates
  none. It returns \<open>0x10410\<close>, behind the end \<open>0x10401\<close> of the only block, which stays the
  active one.
\<close>

theorem full_block_serves_request_without_growing:
  "(case arena_ctor (Some (1, 0x10000)) 1025 of
      Inr s0 \<Rightarrow>
        (case allocate_bytes None s0 1025 1 of
           Some (Inr p, s1) \<Rightarrow>
             blocks s1 1 =
               Some \<lparr>data = 0x10000, cur = 0x10401, end_ptr = 0x10401, nxt = None,
                     capacity = 1025\<rparr>
             \<and> (case allocate_bytes (Some (2, 0x20000)) s1 1 16 of
                  Some (Inr q, s2) \<Rightarrow>
                    q = 0x10410 \<and> (0x10401 :: byte_ptr) < q
                    \<and> active s2 = Some 1 \<and> chain (blocks s2) (head s2) [1]
                    \<and> blocks s2 2 = None
                | _ \<Rightarrow> False)
         | _ \<Rightarrow> False)
    | Inl e \<Rightarrow> False)"
  by (simp add: run_defs)

subsection \<open>Growing after a rollback\<close>

text \<open>
  C1. Every block the arena ever created stays reachable from \<^verbatim>\<open>_head\<close>, also after
  \<^verbatim>\<open>rollback_to\<close>, and is deleted when the arena is torn down. The code breaks this on
  \<^verbatim>\<open>arena a(1024); auto m = a.create_marker(); a.allocate_bytes(2000, 8); a.rollback_to(m); a.allocate_bytes(2000, 8);\<close>
  The first request creates block 2 behind block 1. The rollback makes block 1 active
  again. The second request does not fit block 1 either, creates block 3 and stores it in
  block 1's \<^verbatim>\<open>next\<close>, over the link to block 2. The chain from \<^verbatim>\<open>_head\<close> is then 1, 3;
  block 2 is live and on no chain, and \<^verbatim>\<open>free_all\<close> deletes blocks 1 and 3 and leaves it.
\<close>

theorem growth_after_rollback_orphans_block:
  "(case arena_ctor (Some (1, 0x10000)) 1024 of
      Inr s0 \<Rightarrow>
        (case create_marker s0 of
           Some m \<Rightarrow>
             (case allocate_bytes (Some (2, 0x20000)) s0 2000 8 of
                Some (Inr p, s1) \<Rightarrow>
                  (case rollback_to s1 m of
                     Some s2 \<Rightarrow>
                       (case allocate_bytes (Some (3, 0x30000)) s2 2000 8 of
                          Some (Inr q, s3) \<Rightarrow>
                            chain (blocks s1) (head s1) [1, 2]
                            \<and> chain (blocks s3) (head s3) [1, 3]
                            \<and> blocks s3 2 =
                                Some \<lparr>data = 0x20000, cur = 0x20000, end_ptr = 0x20800,
                                      nxt = None, capacity = 2048\<rparr>
                            \<and> (case free_all s3 of
                                  Some s4 \<Rightarrow>
                                    blocks s4 1 = None \<and> blocks s4 3 = None
                                    \<and> blocks s4 2 \<noteq> None
                                | None \<Rightarrow> False)
                        | _ \<Rightarrow> False)
                   | None \<Rightarrow> False)
              | _ \<Rightarrow> False)
         | None \<Rightarrow> False)
    | Inl e \<Rightarrow> False)"
  by (simp add: run_defs)

text \<open>
  C5. After \<^verbatim>\<open>rollback_to(m)\<close>, the requests issued since \<open>m\<close> was captured return the
  same addresses when issued again; in particular \<^verbatim>\<open>allocate(200, 8)\<close> returns the same
  \<open>p2\<close> before and after the rollback. The code breaks this in an arena of 1024 bytes of
  which 900 are used: the first \<^verbatim>\<open>allocate_bytes(200, 8)\<close> creates block 2 and returns its
  start \<open>0x20000\<close>. After the rollback block 2 is live and empty, but the second
  \<^verbatim>\<open>allocate_bytes(200, 8)\<close> does not go to it: it creates block 3, whose storage is
  elsewhere since block 2 still owns its own, and returns \<open>0x30000\<close>.
\<close>

theorem replay_after_rollback_returns_other_address:
  "(case arena_ctor (Some (1, 0x10000)) 1024 of
      Inr s0 \<Rightarrow>
        (case allocate_bytes None s0 900 8 of
           Some (Inr p1, s1) \<Rightarrow>
             (case create_marker s1 of
                Some m \<Rightarrow>
                  (case allocate_bytes (Some (2, 0x20000)) s1 200 8 of
                     Some (Inr p2, s2) \<Rightarrow>
                       (case rollback_to s2 m of
                          Some s3 \<Rightarrow>
                            (case allocate_bytes (Some (3, 0x30000)) s3 200 8 of
                               Some (Inr p3, s4) \<Rightarrow>
                                 p2 = 0x20000 \<and> p3 = 0x30000 \<and> p3 \<noteq> p2
                                 \<and> blocks s3 2 =
                                     Some \<lparr>data = 0x20000, cur = 0x20000, end_ptr = 0x20800,
                                           nxt = None, capacity = 2048\<rparr>
                             | _ \<Rightarrow> False)
                        | None \<Rightarrow> False)
                   | _ \<Rightarrow> False)
              | None \<Rightarrow> False)
         | _ \<Rightarrow> False)
    | Inl e \<Rightarrow> False)"
  by (simp add: run_defs)

text \<open>
  C6. When the constructor run by \<^verbatim>\<open>make<T>\<close> throws, the arena is rolled back to the
  marker taken before the call, the exception propagates unchanged, and a following
  request of the same size and alignment returns the address the failed construction was
  given. The code breaks the last part in the same arena: \<^verbatim>\<open>make<T>\<close> with
  \<^verbatim>\<open>sizeof(T) = 200\<close>, \<^verbatim>\<open>alignof(T) = 8\<close> and a constructor that throws the address it was
  given creates block 2, throws \<open>0x20000\<close> and rolls back, so that block 1 is active with
  its cursor restored. The next \<^verbatim>\<open>allocate_bytes(200, 8)\<close> creates block 3 and returns
  \<open>0x30000\<close>.
\<close>

theorem failed_make_then_allocate_returns_other_address:
  "(case arena_ctor (Some (1, 0x10000)) 1024 of
      Inr s0 \<Rightarrow>
        (case allocate_bytes None s0 900 8 of
           Some (Inr p1, s1) \<Rightarrow>
             (case make (Some (2, 0x20000)) s1 200 8 (\<lambda>memory. Some memory) of
                Some (Inl e, s2) \<Rightarrow>
                  e = ctor_threw 0x20000
                  \<and> active s2 = active s1
                  \<and> blocks s1 1 =
                      Some \<lparr>data = 0x10000, cur = 0x10384, end_ptr = 0x10400,
                            nxt = None, capacity = 1024\<rparr>
                  \<and> blocks s2 1 =
                      Some \<lparr>data = 0x10000, cur = 0x10384, end_ptr = 0x10400,
                            nxt = Some 2, capacity = 1024\<rparr>
                  \<and> blocks s2 2 =
                      Some \<lparr>data = 0x20000, cur = 0x20000, end_ptr = 0x20800,
                            nxt = None, capacity = 2048\<rparr>
                  \<and> (case allocate_bytes (Some (3, 0x30000)) s2 200 8 of
                       Some (Inr p3, s3) \<Rightarrow> p3 = 0x30000 \<and> p3 \<noteq> 0x20000
                     | _ \<Rightarrow> False)
              | _ \<Rightarrow> False)
         | _ \<Rightarrow> False)
    | Inl e \<Rightarrow> False)"
  by (simp add: run_defs)

end
